theory Spec2Isabelle
  imports Main "HOL-Library.AList"
begin

section \<open>Characters and strings of the Python source\<close>

text \<open>
  A Python \<open>str\<close> is a sequence of code points. A \<^typ>\<open>char\<close> stands for the code point
  of the same number, so a \<^typ>\<open>string\<close> is a Python string over the code points below
  256. The tables below are what Python 3 answers on that range for \<open>str.isspace\<close> (also
  the regular expression class \<open>\s\<close> and the characters \<open>str.strip\<close> removes),
  for \<open>\d\<close>, for \<open>\w\<close> and for \<open>str.lower\<close>.
\<close>

definition nl :: char where
  "nl = CHR ''\<newline>''"

definition tab :: char where
  "tab = CHR 0x09"

definition space_chars :: "char list" where
  "space_chars = [CHR 0x09, CHR ''\<newline>'', CHR 0x0B, CHR 0x0C, CHR 0x0D,
                  CHR 0x1C, CHR 0x1D, CHR 0x1E, CHR 0x1F, CHR '' '', CHR 0x85, CHR 0xA0]"

definition is_space :: "char \<Rightarrow> bool" where
  "is_space c = (c \<in> set space_chars)"

definition is_digit :: "char \<Rightarrow> bool" where
  "is_digit c = (c \<in> set ''0123456789'')"

definition upper_chars :: "char list" where
  "upper_chars = ''ABCDEFGHIJKLMNOPQRSTUVWXYZ'' @
     [CHR 0xC0, CHR 0xC1, CHR 0xC2, CHR 0xC3, CHR 0xC4, CHR 0xC5, CHR 0xC6, CHR 0xC7,
      CHR 0xC8, CHR 0xC9, CHR 0xCA, CHR 0xCB, CHR 0xCC, CHR 0xCD, CHR 0xCE, CHR 0xCF,
      CHR 0xD0, CHR 0xD1, CHR 0xD2, CHR 0xD3, CHR 0xD4, CHR 0xD5, CHR 0xD6,
      CHR 0xD8, CHR 0xD9, CHR 0xDA, CHR 0xDB, CHR 0xDC, CHR 0xDD, CHR 0xDE]"

definition lower_chars :: "char list" where
  "lower_chars = ''abcdefghijklmnopqrstuvwxyz'' @
     [CHR 0xE0, CHR 0xE1, CHR 0xE2, CHR 0xE3, CHR 0xE4, CHR 0xE5, CHR 0xE6, CHR 0xE7,
      CHR 0xE8, CHR 0xE9, CHR 0xEA, CHR 0xEB, CHR 0xEC, CHR 0xED, CHR 0xEE, CHR 0xEF,
      CHR 0xF0, CHR 0xF1, CHR 0xF2, CHR 0xF3, CHR 0xF4, CHR 0xF5, CHR 0xF6,
      CHR 0xF8, CHR 0xF9, CHR 0xFA, CHR 0xFB, CHR 0xFC, CHR 0xFD, CHR 0xFE]"

text \<open>The other word characters below 256: \<open>_\<close>, the digits, and the letters and
  numeric characters of the Latin-1 block that have no other case.\<close>

definition other_word_chars :: "char list" where
  "other_word_chars = ''0123456789_'' @
     [CHR 0xAA, CHR 0xB2, CHR 0xB3, CHR 0xB5, CHR 0xB9, CHR 0xBA, CHR 0xBC, CHR 0xBD,
      CHR 0xBE, CHR 0xDF, CHR 0xFF]"

definition is_word :: "char \<Rightarrow> bool" where
  "is_word c = (c \<in> set (upper_chars @ lower_chars @ other_word_chars))"

definition lower :: "char \<Rightarrow> char" where
  "lower c = (case map_of (zip upper_chars lower_chars) c of Some d \<Rightarrow> d | None \<Rightarrow> c)"

definition str_lower :: "string \<Rightarrow> string" where
  "str_lower s = map lower s"

text \<open>\<open>s.strip()\<close>\<close>

definition strip :: "string \<Rightarrow> string" where
  "strip s = rev (dropWhile is_space (rev (dropWhile is_space s)))"

text \<open>\<open>s.split('\n')\<close>: the pieces between the newlines, at least one piece.\<close>

fun split_nl :: "string \<Rightarrow> string list" where
  "split_nl [] = [[]]"
| "split_nl (c # cs) =
     (if c = nl then [] # split_nl cs
      else (case split_nl cs of piece # pieces \<Rightarrow> (c # piece) # pieces | [] \<Rightarrow> [[c]]))"

text \<open>\<open>sep.join(xs)\<close>\<close>

fun join :: "string \<Rightarrow> string list \<Rightarrow> string" where
  "join sep [] = []"
| "join sep [x] = x"
| "join sep (x # y # ys) = x @ sep @ join sep (y # ys)"

text \<open>\<open>sub in s\<close>\<close>

fun str_in :: "string \<Rightarrow> string \<Rightarrow> bool" where
  "str_in sub [] = (sub = [])"
| "str_in sub (c # cs) = (take (length sub) (c # cs) = sub \<or> str_in sub cs)"

text \<open>\<open>s.split('\n\n')\<close>: the text is cut at each pair of newlines, scanning from
  the left; \<open>acc\<close> holds the current piece in reverse.\<close>

fun split_nlnl :: "string \<Rightarrow> string \<Rightarrow> string list" where
  "split_nlnl acc [] = [rev acc]"
| "split_nlnl acc [c] = [rev (c # acc)]"
| "split_nlnl acc (c # d # ds) =
     (if c = nl \<and> d = nl then rev acc # split_nlnl [] ds else split_nlnl (c # acc) (d # ds))"

section \<open>Regular expressions\<close>

text \<open>
  The fragment of Python's \<open>re\<close> that the pattern tables use: literal characters, the
  classes \<open>\d\<close>, \<open>\s\<close>, \<open>\w\<close>, the greedy quantifiers \<open>?\<close>, \<open>+\<close> and \<open>*\<close>
  on one character, and one capture group. A pattern is the list of its items.
\<close>

datatype cclass = Digit | Space | Word

datatype atom = Lit char | Cls cclass

datatype item = One atom | Opt atom | Plus atom | Star atom | GOpen | GClose

type_synonym regex = "item list"

text \<open>A match object: \<open>group(0)\<close> and \<open>group(1)\<close>.\<close>

type_synonym match = "string \<times> string"

fun atom_ok :: "bool \<Rightarrow> atom \<Rightarrow> char \<Rightarrow> bool" where
  "atom_ok ic (Lit p) c = (if ic then lower c = lower p else c = p)"
| "atom_ok ic (Cls Digit) c = is_digit c"
| "atom_ok ic (Cls Space) c = is_space c"
| "atom_ok ic (Cls Word) c = is_word c"

definition consumed :: "bool \<Rightarrow> char \<Rightarrow> match \<Rightarrow> match" where
  "consumed ing c m = (c # fst m, if ing then c # snd m else snd m)"

text \<open>
  Matching at the start of \<open>s\<close>, as the backtracking matcher of \<open>re\<close> does: a quantifier
  first takes the character and gives it back only when the rest of the pattern fails.
  \<open>ic\<close> is the flag \<open>re.IGNORECASE\<close>; \<open>ing\<close> tells that the position is inside the
  capture group.
\<close>

fun re_here :: "bool \<Rightarrow> regex \<Rightarrow> bool \<Rightarrow> string \<Rightarrow> match option" where
  "re_here ic [] ing s = Some ([], [])"
| "re_here ic (GOpen # r) ing s = re_here ic r True s"
| "re_here ic (GClose # r) ing s = re_here ic r False s"
| "re_here ic (One a # r) ing [] = None"
| "re_here ic (One a # r) ing (c # cs) =
     (if atom_ok ic a c then map_option (consumed ing c) (re_here ic r ing cs) else None)"
| "re_here ic (Opt a # r) ing [] = re_here ic r ing []"
| "re_here ic (Opt a # r) ing (c # cs) =
     (if atom_ok ic a c
      then (case re_here ic r ing cs of
              Some m \<Rightarrow> Some (consumed ing c m)
            | None \<Rightarrow> re_here ic r ing (c # cs))
      else re_here ic r ing (c # cs))"
| "re_here ic (Plus a # r) ing [] = None"
| "re_here ic (Plus a # r) ing (c # cs) =
     (if atom_ok ic a c then map_option (consumed ing c) (re_here ic (Star a # r) ing cs)
      else None)"
| "re_here ic (Star a # r) ing [] = re_here ic r ing []"
| "re_here ic (Star a # r) ing (c # cs) =
     (if atom_ok ic a c
      then (case re_here ic (Star a # r) ing cs of
              Some m \<Rightarrow> Some (consumed ing c m)
            | None \<Rightarrow> re_here ic r ing (c # cs))
      else re_here ic r ing (c # cs))"

text \<open>\<open>re.match(p, s)\<close> and \<open>re.match(p, s, re.IGNORECASE)\<close>\<close>

definition re_match :: "bool \<Rightarrow> regex \<Rightarrow> string \<Rightarrow> match option" where
  "re_match ic p s = re_here ic p False s"

text \<open>\<open>re.search(p, s)\<close>: the match at the leftmost position that has one.\<close>

fun re_search :: "bool \<Rightarrow> regex \<Rightarrow> string \<Rightarrow> match option" where
  "re_search ic p [] = re_here ic p False []"
| "re_search ic p (c # cs) =
     (case re_here ic p False (c # cs) of Some m \<Rightarrow> Some m | None \<Rightarrow> re_search ic p cs)"

text \<open>
  \<open>re.compile\<close> on the syntax the pattern tables use: a literal character, an escape
  (\<open>\d\<close>, \<open>\s\<close>, \<open>\w\<close>, or an escaped punctuation character), each followed by an
  optional quantifier \<open>?\<close>, \<open>+\<close>, \<open>*\<close> or \<open>{n}\<close> with a one-digit \<open>n\<close>, and
  the parentheses of the capture group. \<open>x{n}\<close> is \<open>n\<close> copies of \<open>x\<close>.
\<close>

definition bs :: char where
  "bs = CHR 0x5C"

definition escape :: "char \<Rightarrow> atom" where
  "escape c = (if c = CHR ''d'' then Cls Digit else if c = CHR ''s'' then Cls Space
               else if c = CHR ''w'' then Cls Word else Lit c)"

definition digit_val :: "char \<Rightarrow> nat" where
  "digit_val c = length (takeWhile (\<lambda>d. d \<noteq> c) ''0123456789'')"

fun quantified :: "atom \<Rightarrow> string \<Rightarrow> regex \<times> string" where
  "quantified a [] = ([One a], [])"
| "quantified a (q # r) =
     (if q = CHR ''?'' then ([Opt a], r)
      else if q = CHR ''+'' then ([Plus a], r)
      else if q = CHR ''*'' then ([Star a], r)
      else if q = CHR ''{'' \<and> length r \<ge> 2 \<and> is_digit (hd r) \<and> hd (tl r) = CHR ''}''
        then (replicate (digit_val (hd r)) (One a), tl (tl r))
      else ([One a], q # r))"

function re_compile :: "string \<Rightarrow> regex" where
  "re_compile [] = []"
| "re_compile (c # r) =
     (if c = CHR ''('' then GOpen # re_compile r
      else if c = CHR '')'' then GClose # re_compile r
      else if c = bs \<and> r \<noteq> []
        then fst (quantified (escape (hd r)) (tl r)) @
             re_compile (snd (quantified (escape (hd r)) (tl r)))
      else fst (quantified (Lit c) r) @ re_compile (snd (quantified (Lit c) r)))"
  by pat_completeness auto

termination re_compile
proof (relation "measure length", goal_cases)
  case 1
  show ?case by simp
next
  case (2 c r)
  show ?case by simp
next
  case (3 c r)
  show ?case by simp
next
  case (4 c r)
  have "length (snd (quantified (escape (hd r)) (tl r))) \<le> length (tl r)"
    by (cases "tl r") auto
  then show ?case by simp
next
  case (5 c r)
  have "length (snd (quantified (Lit c) r)) \<le> length r"
    by (cases r) auto
  then show ?case by simp
qed

text \<open>The source text of \<open>\s+\<close>, \<open>\d+\<close>, \<open>\w+\<close>, \<open>\d{4}\<close> and \<open>\.\<close>, to spell
  the patterns as the source does.\<close>

definition ws :: string where
  "ws = bs # ''s+''"

definition ds :: string where
  "ds = bs # ''d+''"

definition wds :: string where
  "wds = bs # ''w+''"

definition d4 :: string where
  "d4 = bs # ''d{4}''"

definition dot :: string where
  "dot = bs # ''.''"

section \<open>extractor.py: the normalizer\<close>





text \<open>\<open>re.sub(r'[ \t]+', ' ', text)\<close>: each maximal run of spaces and tabs becomes one
  space.\<close>

definition blank :: "char \<Rightarrow> bool" where
  "blank c = (c = CHR '' '' \<or> c = tab)"






section \<open>extractor.py: the segmenter\<close>

text \<open>A section dictionary \<open>Dict[str, str]\<close>, in insertion order. \<open>d[k] = v\<close> is
  \<^const>\<open>AList.update\<close>, \<open>d.get(k)\<close> is \<^const>\<open>map_of\<close>.\<close>

type_synonym sections = "(string \<times> string) list"

text \<open>The dictionary that \<open>extract_sections\<close> and \<open>_fallback_section_extraction\<close> start
  from.\<close>

definition empty_sections :: sections where
  "empty_sections =
     [(''project_overview'', []),
      (''scope'', []),
      (''timeline'', []),
      (''materials'', []),
      (''costs'', []),
      (''payment_terms'', []),
      (''deliverables'', []),
      (''quality_standards'', []),
      (''legal_clauses'', [])]"

definition section_headers :: "(string \<times> string list) list" where
  "section_headers =
     [(''project_overview'',
        [''project'' @ ws @ ''overview'', ''introduction'', ''background'', ''purpose'',
         ''project'' @ ws @ ''description'']),
      (''scope'',
        [''scope'' @ ws @ ''of'' @ ws @ ''work'', ''scope'', ''work'' @ ws @ ''scope'',
         ''project'' @ ws @ ''scope'', ''statement'' @ ws @ ''of'' @ ws @ ''work'']),
      (''timeline'',
        [''timeline'', ''schedule'', ''duration'', ''deadline'', ''milestone'',
         ''project'' @ ws @ ''schedule'', ''time'' @ ws @ ''frame'']),
      (''materials'',
        [''materials'', ''equipment'', ''supplies'', ''resources'',
         ''material'' @ ws @ ''requirements'']),
      (''costs'',
        [''costs?'', ''budget'', ''pricing'', ''estimate'', ''financial'',
         ''cost'' @ ws @ ''breakdown'', ''budgetary'']),
      (''payment_terms'',
        [''payment'' @ ws @ ''terms?'', ''payment'', ''invoice'', ''billing'',
         ''payment'' @ ws @ ''schedule'']),
      (''deliverables'',
        [''deliverables?'', ''output'', ''result'', ''product'', ''delivery'']),
      (''quality_standards'',
        [''quality'' @ ws @ ''standards?'', ''quality'', ''standard'', ''specification'',
         ''requirement'', ''quality'' @ ws @ ''assurance'']),
      (''legal_clauses'',
        [''legal'' @ ws @ ''clauses?'', ''legal'', ''clause'', ''liability'', ''warranty'',
         ''indemnification'', ''terms'' @ ws @ ''and'' @ ws @ ''conditions''])]"

text \<open>The inner loop over the patterns of one section: the first pattern that
  \<open>re.match(pattern, line, re.IGNORECASE)\<close> accepts, with its match.\<close>

fun first_pattern :: "string list \<Rightarrow> string \<Rightarrow> (string \<times> match) option" where
  "first_pattern [] line = None"
| "first_pattern (pattern # patterns) line =
     (case re_match True (re_compile pattern) line of
        Some m \<Rightarrow> Some (pattern, m)
      | None \<Rightarrow> first_pattern patterns line)"

text \<open>The outer loop over \<open>section_headers.items()\<close>, left at the first section that
  has a matching pattern: \<open>found_section\<close> and \<open>found_pattern\<close>.\<close>

fun find_section :: "(string \<times> string list) list \<Rightarrow> string \<Rightarrow> (string \<times> string) option" where
  "find_section [] line = None"
| "find_section ((section_name, patterns) # rest) line =
     (case first_pattern patterns line of
        Some (pattern, m) \<Rightarrow> Some (section_name, pattern)
      | None \<Rightarrow> find_section rest line)"

text \<open>The variables of the loop over the lines.\<close>

record seg_state =
  sections :: sections
  current_section :: "string option"
  current_content :: "string list"

text \<open>\<open>if current_section and current_content: sections[current_section] = ...\<close>\<close>

definition save_section :: "seg_state \<Rightarrow> sections" where
  "save_section st =
     (case current_section st of
        Some name \<Rightarrow>
          if name \<noteq> [] \<and> current_content st \<noteq> []
          then AList.update name (strip (join [nl] (current_content st))) (sections st)
          else sections st
      | None \<Rightarrow> sections st)"

text \<open>The text after the header on the header's line: the second loop over the patterns
  of the found section (\<open>section_headers[found_section]\<close>, a key of the dictionary).\<close>

definition after_header :: "string \<Rightarrow> string \<Rightarrow> string list" where
  "after_header found_section line =
     (case first_pattern (case map_of section_headers found_section of
                            Some patterns \<Rightarrow> patterns | None \<Rightarrow> []) line of
        Some (pattern, header_match) \<Rightarrow>
          (let after_header = strip (drop (length (fst header_match)) line)
           in if after_header \<noteq> [] then [after_header] else [])
      | None \<Rightarrow> [])"

text \<open>One pass of the body of \<open>for line in lines\<close>.\<close>

definition seg_step :: "seg_state \<Rightarrow> string \<Rightarrow> seg_state" where
  "seg_step st raw =
     (let line = strip raw in
      if line = [] then st
      else (case find_section section_headers line of
              Some (found_section, found_pattern) \<Rightarrow>
                \<lparr>sections = save_section st,
                 current_section = Some found_section,
                 current_content = after_header found_section line\<rparr>
            | None \<Rightarrow>
                (case current_section st of
                   Some name \<Rightarrow>
                     if name \<noteq> [] then st\<lparr>current_content := current_content st @ [line]\<rparr>
                     else st
                 | None \<Rightarrow> st)))"

definition seg_init :: seg_state where
  "seg_init = \<lparr>sections = empty_sections, current_section = None, current_content = []\<rparr>"

text \<open>The loop and the saving of the last section: the dictionary before the test
  \<open>if not any(sections.values())\<close>.\<close>

definition segment_lines :: "string list \<Rightarrow> sections" where
  "segment_lines lines = save_section (foldl seg_step seg_init lines)"

text \<open>\<open>any(sections.values())\<close>: some value is a non-empty string.\<close>

definition any_value :: "sections \<Rightarrow> bool" where
  "any_value secs = list_ex (\<lambda>v. v \<noteq> []) (map snd secs)"

text \<open>\<open>_fallback_section_extraction\<close>. \<open>any(keyword in paragraph_lower for keyword in
  [...])\<close> is \<open>any_keyword\<close>; the two branches that store a paragraph are
  \<open>add_paragraph\<close>; \<open>fallback_step\<close> is the body of the loop over the paragraphs, with
  its chain of \<open>if\<close> and \<open>elif\<close>.\<close>

definition any_keyword :: "string list \<Rightarrow> string \<Rightarrow> bool" where
  "any_keyword keywords paragraph_lower =
     list_ex (\<lambda>keyword. str_in keyword paragraph_lower) keywords"

definition add_paragraph :: "string \<Rightarrow> string \<Rightarrow> sections \<Rightarrow> sections" where
  "add_paragraph name paragraph secs =
     (case map_of secs name of
        Some body \<Rightarrow>
          if body \<noteq> [] then AList.update name (body @ [nl, nl] @ paragraph) secs
          else AList.update name paragraph secs
      | None \<Rightarrow> secs)"

definition fallback_step :: "sections \<Rightarrow> string \<Rightarrow> sections" where
  "fallback_step secs paragraph =
     (let paragraph_lower = str_lower paragraph in
      if any_keyword [''project overview'', ''introduction'', ''background''] paragraph_lower
        then add_paragraph ''project_overview'' paragraph secs
      else if any_keyword [''scope of work'', ''scope'', ''work scope''] paragraph_lower
        then add_paragraph ''scope'' paragraph secs
      else if any_keyword [''timeline'', ''schedule'', ''duration'', ''deadline''] paragraph_lower
        then add_paragraph ''timeline'' paragraph secs
      else if any_keyword [''materials'', ''equipment'', ''supplies''] paragraph_lower
        then add_paragraph ''materials'' paragraph secs
      else if any_keyword [''cost'', ''budget'', ''pricing'', ''estimate''] paragraph_lower
        then add_paragraph ''costs'' paragraph secs
      else if any_keyword [''payment'', ''invoice'', ''billing''] paragraph_lower
        then add_paragraph ''payment_terms'' paragraph secs
      else if any_keyword [''deliverable'', ''output'', ''result''] paragraph_lower
        then add_paragraph ''deliverables'' paragraph secs
      else if any_keyword [''quality'', ''standard'', ''specification''] paragraph_lower
        then add_paragraph ''quality_standards'' paragraph secs
      else if any_keyword [''legal'', ''clause'', ''liability'', ''warranty''] paragraph_lower
        then add_paragraph ''legal_clauses'' paragraph secs
      else secs)"

definition fallback_section_extraction :: "string \<Rightarrow> sections" where
  "fallback_section_extraction text =
     (let paragraphs = split_nlnl [] text
      in foldl fallback_step empty_sections paragraphs)"

definition extract_sections :: "string \<Rightarrow> sections" where
  "extract_sections text =
     (let secs = segment_lines (split_nl text)
      in if \<not> any_value secs then fallback_section_extraction text else secs)"

section \<open>nlp\_rules.py: the rule engine\<close>

text \<open>
  An issue is a dictionary with string keys. The record has one field for each key the
  rule engine and the reporter use; \<open>None\<close> is an absent key. The values of \<open>type\<close>,
  \<open>section\<close>, \<open>term\<close>, \<open>severity\<close>, \<open>message\<close> and \<open>suggestion\<close> are strings,
  \<open>patterns\<close> is a list of strings.
\<close>

record issue =
  i_type :: "string option"
  i_section :: "string option"
  i_term :: "string option"
  i_patterns :: "string list option"
  i_severity :: "string option"
  i_message :: "string option"
  i_suggestion :: "string option"

definition no_issue :: issue where
  "no_issue = \<lparr>i_type = None, i_section = None, i_term = None, i_patterns = None,
               i_severity = None, i_message = None, i_suggestion = None\<rparr>"

definition CRITICAL_SECTIONS :: "string list" where
  "CRITICAL_SECTIONS =
     [''project_overview'',
      ''scope'',
      ''timeline'',
      ''materials'',
      ''costs'',
      ''payment_terms'',
      ''deliverables'',
      ''quality_standards'',
      ''legal_clauses'']"

definition AMBIGUOUS_TERMS :: "string list" where
  "AMBIGUOUS_TERMS =
     [''as per standard'',
      ''TBD'',
      ''to be determined'',
      ''as required'',
      ''if necessary'',
      ''subject to change'',
      ''etc'' @ dot,
      ''or equivalent'',
      ''as needed'',
      ''unless otherwise specified'']"

definition CONTRADICTION_PATTERNS :: "(string \<times> string) list" where
  "CONTRADICTION_PATTERNS =
     [(''completion in ('' @ ds @ '') months'', ''phases? spanning ('' @ ds @ '') months''),
      (''start date:? ('' @ wds @ '' '' @ d4 @ '')'',
       ''completion date:? ('' @ wds @ '' '' @ d4 @ '')'')]"

text \<open>\<open>s.replace("_", " ")\<close> and \<open>s.title()\<close>. \<open>title\<close> writes a character in
  upper case when the character before it is not a cased one, in lower case otherwise;
  the source applies it to the section identifiers. (Three cased code points below 256
  have their upper case beyond 255 and are left as they are: B5, DF and FF.)\<close>

definition replace_underscore :: "string \<Rightarrow> string" where
  "replace_underscore s = map (\<lambda>c. if c = CHR ''_'' then CHR '' '' else c) s"

definition upper :: "char \<Rightarrow> char" where
  "upper c = (case map_of (zip lower_chars upper_chars) c of Some d \<Rightarrow> d | None \<Rightarrow> c)"

definition is_cased :: "char \<Rightarrow> bool" where
  "is_cased c = (c \<in> set (upper_chars @ lower_chars @ [CHR 0xAA, CHR 0xB5, CHR 0xBA, CHR 0xDF, CHR 0xFF]))"

fun title_from :: "bool \<Rightarrow> string \<Rightarrow> string" where
  "title_from previous_is_cased [] = []"
| "title_from previous_is_cased (c # cs) =
     (if previous_is_cased then lower c else upper c) # title_from (is_cased c) cs"

definition title :: "string \<Rightarrow> string" where
  "title s = title_from False s"

definition missing_issue :: "string \<Rightarrow> issue" where
  "missing_issue section_name =
     no_issue\<lparr>i_type := Some ''missing_section'',
              i_section := Some section_name,
              i_severity := Some ''Critical'',
              i_message := Some (''Missing critical section: '' @ title (replace_underscore section_name)),
              i_suggestion := Some (''Add a section for '' @ title (replace_underscore section_name) @ ''.'')\<rparr>"

text \<open>\<open>not sections.get(section)\<close>: the key is absent or its value is the empty string.\<close>

definition not_get :: "sections \<Rightarrow> string \<Rightarrow> bool" where
  "not_get secs name = (case map_of secs name of None \<Rightarrow> True | Some v \<Rightarrow> v = [])"

text \<open>The loop of \<open>check_missing_sections\<close>; \<open>issues\<close> is the list built so far.\<close>

fun missing_loop :: "sections \<Rightarrow> string list \<Rightarrow> issue list \<Rightarrow> issue list" where
  "missing_loop secs [] issues = issues"
| "missing_loop secs (section_name # rest) issues =
     missing_loop secs rest
       (if not_get secs section_name then issues @ [missing_issue section_name] else issues)"

definition check_missing_sections :: "sections \<Rightarrow> issue list" where
  "check_missing_sections secs = missing_loop secs CRITICAL_SECTIONS []"

definition dq :: char where
  "dq = CHR 0x22"

definition ambiguous_issue :: "string \<Rightarrow> issue" where
  "ambiguous_issue term_src =
     no_issue\<lparr>i_type := Some ''ambiguous_term'',
              i_term := Some term_src,
              i_severity := Some ''Warning'',
              i_message := Some (''Ambiguous term found: '' @ [dq] @ term_src @ [dq]),
              i_suggestion := Some ''Replace with specific details.''\<rparr>"

fun ambiguous_loop :: "string \<Rightarrow> string list \<Rightarrow> issue list \<Rightarrow> issue list" where
  "ambiguous_loop text [] issues = issues"
| "ambiguous_loop text (term_src # rest) issues =
     ambiguous_loop text rest
       (if re_search True (re_compile term_src) text \<noteq> None
        then issues @ [ambiguous_issue term_src] else issues)"

definition check_ambiguous_terms :: "string \<Rightarrow> issue list" where
  "check_ambiguous_terms text = ambiguous_loop text AMBIGUOUS_TERMS []"

definition contradiction_issue :: "string \<Rightarrow> string \<Rightarrow> match \<Rightarrow> match \<Rightarrow> issue" where
  "contradiction_issue pattern1 pattern2 match1 match2 =
     no_issue\<lparr>i_type := Some ''contradiction'',
              i_patterns := Some [pattern1, pattern2],
              i_severity := Some ''Critical'',
              i_message := Some (''Potential contradiction: '' @ [dq] @ fst match1 @ [dq] @
                                 '' vs. '' @ [dq] @ fst match2 @ [dq]),
              i_suggestion := Some ''Clarify the timeline and ensure consistency.''\<rparr>"

fun contradiction_loop :: "string \<Rightarrow> (string \<times> string) list \<Rightarrow> issue list \<Rightarrow> issue list" where
  "contradiction_loop text [] issues = issues"
| "contradiction_loop text ((pattern1, pattern2) # rest) issues =
     contradiction_loop text rest
       (case (re_search True (re_compile pattern1) text,
              re_search True (re_compile pattern2) text) of
          (Some match1, Some match2) \<Rightarrow>
            if snd match1 \<noteq> snd match2
            then issues @ [contradiction_issue pattern1 pattern2 match1 match2]
            else issues
        | _ \<Rightarrow> issues)"

definition check_contradictions :: "string \<Rightarrow> issue list" where
  "check_contradictions text = contradiction_loop text CONTRADICTION_PATTERNS []"

definition analyze_sow_nlp :: "string \<Rightarrow> sections \<Rightarrow> issue list" where
  "analyze_sow_nlp full_text secs =
     check_missing_sections secs @ check_ambiguous_terms full_text @
     check_contradictions full_text"

section \<open>reporter.py: the risk score\<close>

text \<open>A weight table \<open>Dict[str, int]\<close>; \<open>weights.get(sev, 1)\<close>.\<close>

type_synonym weights = "(string \<times> int) list"

definition default_weights :: weights where
  "default_weights = [(''Critical'', 10), (''Warning'', 5), (''Info'', 1)]"

definition weights_get :: "weights \<Rightarrow> string \<Rightarrow> int" where
  "weights_get w sev = (case map_of w sev of Some n \<Rightarrow> n | None \<Rightarrow> 1)"

text \<open>\<open>issue.get('severity', 'Info')\<close>\<close>

definition get_severity :: "issue \<Rightarrow> string" where
  "get_severity i = (case i_severity i of Some sev \<Rightarrow> sev | None \<Rightarrow> ''Info'')"

text \<open>The loop of \<open>assign_risk_score\<close>; \<open>score\<close> is the sum so far.\<close>

fun score_loop :: "weights \<Rightarrow> issue list \<Rightarrow> int \<Rightarrow> int" where
  "score_loop w [] score = score"
| "score_loop w (i # rest) score = score_loop w rest (score + weights_get w (get_severity i))"

definition assign_risk_score :: "issue list \<Rightarrow> weights option \<Rightarrow> int" where
  "assign_risk_score issues weights_arg =
     (let w = (case weights_arg of None \<Rightarrow> default_weights | Some w \<Rightarrow> w)
      in score_loop w issues 0)"

section \<open>Notions the properties are stated with\<close>

text \<open>The number of issues of a list that have the severity \<open>sev\<close>.\<close>

definition severity_count :: "string \<Rightarrow> issue list \<Rightarrow> int" where
  "severity_count sev issues = int (length (filter (\<lambda>i. get_severity i = sev) issues))"

text \<open>Two Critical issues, one Warning and one Info.\<close>

definition example_issues :: "issue list" where
  "example_issues =
     [no_issue\<lparr>i_severity := Some ''Critical''\<rparr>, no_issue\<lparr>i_severity := Some ''Info''\<rparr>,
      no_issue\<lparr>i_severity := Some ''Warning''\<rparr>, no_issue\<lparr>i_severity := Some ''Critical''\<rparr>]"

text \<open>The nine section identifiers, in the order of their declaration.\<close>

definition section_keys :: "string list" where
  "section_keys = [''project_overview'', ''scope'', ''timeline'', ''materials'', ''costs'',
     ''payment_terms'', ''deliverables'', ''quality_standards'', ''legal_clauses'']"


text \<open>A pattern that is a plain text: one literal item for each character.\<close>

definition lit :: "string \<Rightarrow> regex" where
  "lit w = map (\<lambda>c. One (Lit c)) w"

text \<open>The text that a pattern of literal and escaped characters stands for: the
  backslashes are dropped.\<close>

fun unescape :: "string \<Rightarrow> string" where
  "unescape [] = []"
| "unescape [c] = [c]"
| "unescape (c # d # r) = (if c = bs then d # unescape r else c # unescape (d # r))"

text \<open>The text \<open>w\<close> occurs somewhere in \<open>text\<close>, letter case apart.\<close>

definition occurs_ci :: "string \<Rightarrow> string \<Rightarrow> bool" where
  "occurs_ci w text = str_in (str_lower w) (str_lower text)"



text \<open>A line that is no header: blank, or no pattern matches at its start.\<close>

definition plain_line :: "string \<Rightarrow> bool" where
  "plain_line raw = (strip raw = [] \<or> find_section section_headers (strip raw) = None)"

text \<open>The section whose header a line is: the section found for the stripped line, for
  a line that is not blank.\<close>

definition header_of :: "string \<Rightarrow> string option" where
  "header_of raw =
     (if strip raw = [] then None
      else map_option fst (find_section section_headers (strip raw)))"

text \<open>The variables of the loop after the lines.\<close>

definition state_after :: "string list \<Rightarrow> seg_state" where
  "state_after lines = foldl seg_step seg_init lines"

text \<open>What lines that are no headers add to the content: the stripped lines that are
  not empty.\<close>

definition body_lines :: "string list \<Rightarrow> string list" where
  "body_lines raws = filter (\<lambda>line. line \<noteq> []) (map strip raws)"

text \<open>A state of the loop inside the section \<open>scope\<close>, which already has a stored
  body, and lines that leave that body stored.\<close>

definition st_example :: seg_state where
  "st_example = \<lparr>sections = AList.update ''scope'' ''old body'' empty_sections,
                  current_section = Some ''scope'', current_content = [''new body'']\<rparr>"

definition pre_example :: "string list" where
  "pre_example = [''Scope'', ''old body'', ''Timeline'', ''two weeks'']"

text \<open>No header line of section \<open>k\<close> has a body: it carries no text after the
  header, and the next line that is not blank, if there is one, is a header line.
  \<open>opened\<close> tells that the last header line was one of \<open>k\<close>.\<close>

fun bodiless :: "string \<Rightarrow> bool \<Rightarrow> string list \<Rightarrow> bool" where
  "bodiless k opened [] = True"
| "bodiless k opened (raw # rest) =
     (if strip raw = [] then bodiless k opened rest
      else (case header_of raw of
              Some name \<Rightarrow>
                (name = k \<longrightarrow> after_header k (strip raw) = []) \<and> bodiless k (name = k) rest
            | None \<Rightarrow> \<not> opened \<and> bodiless k False rest))"

text \<open>What the loop preserves on such lines: nothing is stored for \<open>k\<close>, and inside
  \<open>k\<close> no content is gathered.\<close>

definition bodiless_inv :: "string \<Rightarrow> bool \<Rightarrow> seg_state \<Rightarrow> bool" where
  "bodiless_inv k opened st =
     (map_of (sections st) k = Some [] \<and>
      (opened \<longrightarrow> current_section st = Some k \<and> current_content st = []) \<and>
      (\<not> opened \<longrightarrow> current_section st \<noteq> Some k))"

text \<open>A header without body next to a section with a body, and two headers without
  bodies.\<close>

definition c3_text :: string where
  "c3_text = ''Scope\<newline>Timeline\<newline>two weeks''"

definition c3_counter_text :: string where
  "c3_counter_text = ''SCOPE\<newline>TIMELINE''"


definition c3_repeated_text :: string where
  "c3_repeated_text = ''SCOPE\<newline>all works\<newline>SCOPE\<newline>TIMELINE\<newline>two weeks''"




















text \<open>Notions of the proofs about the duration and date patterns: equality of
  characters letter case apart; the end of both duration patterns (the group of digits
  and \<open>months\<close>) and of both date patterns (four digits); a text that has, somewhere or
  within its first characters, a character equal to \<open>c\<close> letter case apart, then a
  space, then a digit; a text with three digits in a row; a text that has no three digits
  in a row and does not start with a digit.\<close>

definition ci_eq :: "char \<Rightarrow> char \<Rightarrow> bool" where
  "ci_eq a b = (lower a = lower b)"







section \<open>Lemmas on the strings of the normalizer\<close>






























lemma blank_not_nl: "blank c \<Longrightarrow> c \<noteq> nl"
  by (auto simp: blank_def nl_def tab_def)























section \<open>The risk score\<close>

lemma score_loop_sum:
  "score_loop w issues score = score + sum_list (map (\<lambda>i. weights_get w (get_severity i)) issues)"
  by (induction issues arbitrary: score) simp_all

lemma default_weight_cases:
  "weights_get default_weights sev =
     (if sev = ''Critical'' then 10 else if sev = ''Warning'' then 5 else 1)"
  by (simp add: weights_get_def default_weights_def)

lemma default_score_counts:
  "sum_list (map (\<lambda>i. weights_get default_weights (get_severity i)) issues) =
     10 * severity_count ''Critical'' issues + 5 * severity_count ''Warning'' issues +
     (int (length issues) - severity_count ''Critical'' issues - severity_count ''Warning'' issues)"
  by (induction issues) (simp_all add: default_weight_cases severity_count_def)

text \<open>
  Claim C7. For every list of issues, \<open>assign_risk_score\<close> returns the sum, over the
  issues, of the weight of the issue's severity: with the table that is passed, or with
  the default table Critical 10, Warning 5, Info 1 when none is passed. A severity that
  is not a key of the table weighs 1. A list of two Critical, one Warning and one Info
  issue scores 26 under the default table.
\<close>

theorem risk_score_weighted_sum:
  "assign_risk_score issues (Some w) = sum_list (map (\<lambda>i. weights_get w (get_severity i)) issues)
   \<and> assign_risk_score issues None =
       sum_list (map (\<lambda>i. weights_get default_weights (get_severity i)) issues)
   \<and> default_weights = [(''Critical'', 10), (''Warning'', 5), (''Info'', 1)]
   \<and> (map_of w sev = None \<longrightarrow> weights_get w sev = 1)
   \<and> (severity_count ''Critical'' issues = 2 \<and> severity_count ''Warning'' issues = 1 \<and>
        severity_count ''Info'' issues = 1 \<and> length issues = 4
        \<longrightarrow> assign_risk_score issues None = 26)"
proof -
  have a: "assign_risk_score issues (Some w) =
      sum_list (map (\<lambda>i. weights_get w (get_severity i)) issues)"
    by (simp add: assign_risk_score_def score_loop_sum)
  have b: "assign_risk_score issues None =
      sum_list (map (\<lambda>i. weights_get default_weights (get_severity i)) issues)"
    by (simp add: assign_risk_score_def score_loop_sum)
  have c: "map_of w sev = None \<longrightarrow> weights_get w sev = 1"
    by (simp add: weights_get_def)
  have d: "severity_count ''Critical'' issues = 2 \<and> severity_count ''Warning'' issues = 1 \<and>
        severity_count ''Info'' issues = 1 \<and> length issues = 4
        \<longrightarrow> assign_risk_score issues None = 26"
    by (simp add: b default_score_counts)
  show ?thesis using a b c d by (simp add: default_weights_def)
qed

theorem risk_score_weighted_sum_witness:
  "map_of [(''Critical'', 7::int)] ''Blocker'' = None
   \<and> weights_get [(''Critical'', 7)] ''Blocker'' = 1
   \<and> severity_count ''Critical'' example_issues = 2
   \<and> severity_count ''Warning'' example_issues = 1
   \<and> severity_count ''Info'' example_issues = 1
   \<and> length example_issues = 4
   \<and> assign_risk_score example_issues None = 26"
proof -
  have h1: "map_of [(''Critical'', 7::int)] ''Blocker'' = None" by simp
  have h2: "severity_count ''Critical'' example_issues = 2 \<and>
            severity_count ''Warning'' example_issues = 1 \<and>
            severity_count ''Info'' example_issues = 1 \<and> length example_issues = 4"
    by (simp add: severity_count_def example_issues_def get_severity_def no_issue_def)
  from risk_score_weighted_sum [of example_issues "[(''Critical'', 7)]" "''Blocker''"] h1 h2
  show ?thesis by simp
qed

section \<open>Missing sections\<close>

lemma missing_loop_filter:
  "missing_loop secs names issues = issues @ map missing_issue (filter (not_get secs) names)"
  by (induction names arbitrary: issues) simp_all

lemma not_get_update_other:
  "k \<noteq> name \<Longrightarrow> not_get (AList.update k v secs) name = not_get secs name"
  by (simp add: not_get_def update_conv')

lemma missing_issue_section: "i_section (missing_issue k) = Some k"
  by (simp add: missing_issue_def no_issue_def)

lemma missing_issue_in:
  "(missing_issue k \<in> set (check_missing_sections secs)) =
     (k \<in> set CRITICAL_SECTIONS \<and> not_get secs k)"
proof -
  have inj: "missing_issue k = missing_issue k' \<Longrightarrow> k = k'" for k'
    by (metis missing_issue_section option.inject)
  have "set (check_missing_sections secs) =
        missing_issue ` {n \<in> set CRITICAL_SECTIONS. not_get secs n}"
    by (simp add: check_missing_sections_def missing_loop_filter)
  then show ?thesis using inj by blast
qed

text \<open>
  Claim C10. \<open>check_missing_sections\<close> is total on every section dictionary (the model
  has no error result to return). Its issues are the Critical \<open>missing_section\<close> issues
  of the critical section identifiers whose key is absent or mapped to the empty string, in
  the order of \<open>CRITICAL_SECTIONS\<close>; a dictionary without the key \<open>k\<close> gets the
  same issues as the dictionary with \<open>k\<close> mapped to the empty string.
\<close>

theorem missing_sections_absent_as_empty:
  "check_missing_sections secs =
     map missing_issue
       (filter (\<lambda>name. map_of secs name = None \<or> map_of secs name = Some []) CRITICAL_SECTIONS)
   \<and> i_type (missing_issue name) = Some ''missing_section''
   \<and> i_severity (missing_issue name) = Some ''Critical''
   \<and> i_section (missing_issue name) = Some name
   \<and> (map_of secs k = None \<longrightarrow>
        check_missing_sections secs = check_missing_sections (AList.update k [] secs))"
proof -
  have eq: "not_get secs = (\<lambda>name. map_of secs name = None \<or> map_of secs name = Some [])"
    by (auto simp: not_get_def fun_eq_iff split: option.splits)
  have a: "check_missing_sections secs =
     map missing_issue
       (filter (\<lambda>name. map_of secs name = None \<or> map_of secs name = Some []) CRITICAL_SECTIONS)"
    by (simp add: check_missing_sections_def missing_loop_filter eq)
  have b: "map_of secs k = None \<longrightarrow>
        check_missing_sections secs = check_missing_sections (AList.update k [] secs)"
  proof
    assume n: "map_of secs k = None"
    have "not_get (AList.update k [] secs) name = not_get secs name" for name
      using n by (cases "k = name") (simp_all add: not_get_def update_conv')
    then have "not_get (AList.update k [] secs) = not_get secs" by (simp add: fun_eq_iff)
    then show "check_missing_sections secs = check_missing_sections (AList.update k [] secs)"
      by (simp add: check_missing_sections_def missing_loop_filter)
  qed
  show ?thesis using a b by (simp add: missing_issue_def no_issue_def)
qed

theorem missing_sections_absent_as_empty_witness:
  "map_of [(''scope'', ''all works'')] ''costs'' = None
   \<and> check_missing_sections [(''scope'', ''all works'')] =
       check_missing_sections [(''scope'', ''all works''), (''costs'', [])]
   \<and> map (\<lambda>i. i_section i) (check_missing_sections [(''scope'', ''all works'')]) =
       map Some [''project_overview'', ''timeline'', ''materials'', ''costs'', ''payment_terms'',
                 ''deliverables'', ''quality_standards'', ''legal_clauses'']"
proof -
  have h: "map_of [(''scope'', ''all works'')] ''costs'' = None" by simp
  have u: "AList.update ''costs'' [] [(''scope'', ''all works'')] =
           [(''scope'', ''all works''), (''costs'', [])]" by simp
  note t = missing_sections_absent_as_empty [of "[(''scope'', ''all works'')]" "''x''" "''costs''"]
  have f: "filter (\<lambda>name. map_of [(''scope'', ''all works'')] name = None \<or>
                        map_of [(''scope'', ''all works'')] name = Some []) CRITICAL_SECTIONS =
           [''project_overview'', ''timeline'', ''materials'', ''costs'', ''payment_terms'',
            ''deliverables'', ''quality_standards'', ''legal_clauses'']"
    by (simp add: CRITICAL_SECTIONS_def)
  have s: "map (\<lambda>i. i_section i) (check_missing_sections [(''scope'', ''all works'')]) =
       map Some [''project_overview'', ''timeline'', ''materials'', ''costs'', ''payment_terms'',
                 ''deliverables'', ''quality_standards'', ''legal_clauses'']"
    unfolding t [THEN conjunct1] f by (simp add: missing_issue_section)
  from t h
  have "check_missing_sections [(''scope'', ''all works'')] =
        check_missing_sections (AList.update ''costs'' [] [(''scope'', ''all works'')])"
    by blast
  then have e: "check_missing_sections [(''scope'', ''all works'')] =
        check_missing_sections [(''scope'', ''all works''), (''costs'', [])]"
    by (simp only: u)
  from h e s show ?thesis by blast
qed

section \<open>The keys of the section dictionary\<close>

lemma update_present_keys:
  "k \<in> set (map fst al) \<Longrightarrow> map fst (AList.update k v al) = map fst al"
  by (simp add: update_keys)

lemma first_pattern_in: "first_pattern ps line = Some (p, m) \<Longrightarrow> p \<in> set ps"
  by (induction ps) (auto split: option.splits)

lemma find_section_in:
  "find_section hs line = Some (name, p) \<Longrightarrow> name \<in> set (map fst hs)"
  by (induction hs line rule: find_section.induct) (auto split: option.splits)

lemma section_headers_keys: "map fst section_headers = section_keys"
  by (simp add: section_headers_def section_keys_def)













section \<open>Ambiguous terms\<close>

lemma re_here_lit:
  "(re_here True (lit w) ing s \<noteq> None) =
     (length w \<le> length s \<and> map lower (take (length w) s) = map lower w)"
proof (induction w arbitrary: s)
  case Nil
  then show ?case by (simp add: lit_def)
next
  case (Cons a w)
  show ?case
  proof (cases s)
    case Nil
    then show ?thesis by (simp add: lit_def)
  next
    case (Cons c cs)
    have "(re_here True (lit w) ing cs \<noteq> None) =
       (length w \<le> length cs \<and> map lower (take (length w) cs) = map lower w)"
      by (rule Cons.IH)
    then show ?thesis using Cons by (auto simp: lit_def)
  qed
qed

lemma take_map_lower_eq:
  "(take (length w) (map lower s) = map lower w) =
     (length w \<le> length s \<and> map lower (take (length w) s) = map lower w)"
proof
  assume a: "take (length w) (map lower s) = map lower w"
  then have "length (take (length w) (map lower s)) = length w"
    by (metis length_map)
  then have "length w \<le> length s" by simp
  then show "length w \<le> length s \<and> map lower (take (length w) s) = map lower w"
    using a by (simp add: take_map)
next
  assume "length w \<le> length s \<and> map lower (take (length w) s) = map lower w"
  then show "take (length w) (map lower s) = map lower w" by (simp add: take_map)
qed

lemma re_search_lit:
  "(re_search True (lit w) s \<noteq> None) = occurs_ci w s"
proof (induction s)
  case Nil
  show ?case using re_here_lit [of w False "[]"]
    by (auto simp: occurs_ci_def str_lower_def)
next
  case (Cons c cs)
  have h: "(re_here True (lit w) False (c # cs) \<noteq> None) =
      (take (length (map lower w)) (map lower (c # cs)) = map lower w)"
    using re_here_lit [of w False "c # cs"] take_map_lower_eq [of w "c # cs"] by simp
  have "(re_search True (lit w) (c # cs) \<noteq> None) =
      (re_here True (lit w) False (c # cs) \<noteq> None \<or> re_search True (lit w) cs \<noteq> None)"
    by (simp split: option.splits)
  also have "\<dots> = (take (length (map lower w)) (map lower (c # cs)) = map lower w \<or>
       occurs_ci w cs)"
    using h Cons.IH by simp
  also have "\<dots> = occurs_ci w (c # cs)"
    by (simp add: occurs_ci_def str_lower_def)
  finally show ?case .
qed

lemma ambiguous_terms_literal:
  "t \<in> set AMBIGUOUS_TERMS \<Longrightarrow> re_compile t = lit (unescape t)"
  by (auto simp: AMBIGUOUS_TERMS_def dot_def bs_def lit_def escape_def)

lemma ambiguous_loop_filter:
  "ambiguous_loop text terms issues =
     issues @ map ambiguous_issue
       (filter (\<lambda>t. re_search True (re_compile t) text \<noteq> None) terms)"
  by (induction terms arbitrary: issues) simp_all

lemma count_in_distinct_filter:
  "distinct xs \<Longrightarrow> t \<in> set xs \<Longrightarrow>
     length (filter (\<lambda>x. x = t) (filter P xs)) = (if P t then 1 else 0)"
  by (induction xs) (auto simp: filter_empty_conv)

lemma ambiguous_terms_distinct: "distinct AMBIGUOUS_TERMS"
  by (simp add: AMBIGUOUS_TERMS_def dot_def bs_def)

text \<open>
  Claim C6. For every text, \<open>check_ambiguous_terms\<close> emits one Warning issue for each
  pattern of \<open>AMBIGUOUS_TERMS\<close> whose text occurs in the text, letter case apart, and
  none for the others, in the order of the list; the issue names the pattern in its
  \<open>term\<close>. So each pattern has exactly one issue when it occurs, however often, and
  none when it does not.
\<close>

theorem one_warning_per_ambiguous_term:
  "check_ambiguous_terms text =
     map ambiguous_issue (filter (\<lambda>t. occurs_ci (unescape t) text) AMBIGUOUS_TERMS)
   \<and> i_type (ambiguous_issue t) = Some ''ambiguous_term''
   \<and> i_severity (ambiguous_issue t) = Some ''Warning''
   \<and> i_term (ambiguous_issue t) = Some t
   \<and> (t \<in> set AMBIGUOUS_TERMS \<longrightarrow>
        length (filter (\<lambda>i. i_term i = Some t) (check_ambiguous_terms text)) =
          (if occurs_ci (unescape t) text then 1 else 0))"
proof -
  have f: "filter (\<lambda>t. re_search True (re_compile t) text \<noteq> None) AMBIGUOUS_TERMS =
           filter (\<lambda>t. occurs_ci (unescape t) text) AMBIGUOUS_TERMS"
  proof (rule filter_cong)
    fix u
    assume "u \<in> set AMBIGUOUS_TERMS"
    then show "(re_search True (re_compile u) text \<noteq> None) = occurs_ci (unescape u) text"
      by (simp only: ambiguous_terms_literal re_search_lit)
  qed (rule refl)
  have a: "check_ambiguous_terms text =
     map ambiguous_issue (filter (\<lambda>t. occurs_ci (unescape t) text) AMBIGUOUS_TERMS)"
    by (simp only: check_ambiguous_terms_def ambiguous_loop_filter f append_Nil)
  have t: "i_term (ambiguous_issue u) = Some u" for u
    by (simp add: ambiguous_issue_def no_issue_def)
  have c: "length (filter (\<lambda>i. i_term i = Some t) (check_ambiguous_terms text)) =
          length (filter (\<lambda>u. u = t) (filter (\<lambda>t. occurs_ci (unescape t) text) AMBIGUOUS_TERMS))"
    by (simp add: a filter_map comp_def t)
  have d: "t \<in> set AMBIGUOUS_TERMS \<longrightarrow>
        length (filter (\<lambda>i. i_term i = Some t) (check_ambiguous_terms text)) =
          (if occurs_ci (unescape t) text then 1 else 0)"
  proof
    assume m: "t \<in> set AMBIGUOUS_TERMS"
    show "length (filter (\<lambda>i. i_term i = Some t) (check_ambiguous_terms text)) =
          (if occurs_ci (unescape t) text then 1 else 0)"
      unfolding c by (rule count_in_distinct_filter [OF ambiguous_terms_distinct m])
  qed
  show ?thesis using a d by (simp add: ambiguous_issue_def no_issue_def)
qed

theorem one_warning_per_ambiguous_term_witness:
  "''as per standard'' \<in> set AMBIGUOUS_TERMS
   \<and> occurs_ci (unescape ''as per standard'') ''Built As Per Standard, paid as per standard.''
   \<and> length (filter (\<lambda>i. i_term i = Some ''as per standard'')
        (check_ambiguous_terms ''Built As Per Standard, paid as per standard.'')) = 1"
proof -
  have h: "''as per standard'' \<in> set AMBIGUOUS_TERMS" by (simp add: AMBIGUOUS_TERMS_def)
  have o: "occurs_ci (unescape ''as per standard'') ''Built As Per Standard, paid as per standard.''"
    by code_simp
  from one_warning_per_ambiguous_term
    [of "''Built As Per Standard, paid as per standard.''" "''as per standard''"] h
  have "length (filter (\<lambda>i. i_term i = Some ''as per standard'')
        (check_ambiguous_terms ''Built As Per Standard, paid as per standard.'')) =
        (if occurs_ci (unescape ''as per standard'')
              ''Built As Per Standard, paid as per standard.'' then 1 else 0)"
    by blast
  then have "length (filter (\<lambda>i. i_term i = Some ''as per standard'')
        (check_ambiguous_terms ''Built As Per Standard, paid as per standard.'')) = 1"
    by (simp only: o if_True)
  with h o show ?thesis by blast
qed

section \<open>The loop over the lines\<close>






lemma seg_step_blank: "strip raw = [] \<Longrightarrow> seg_step st raw = st"
  by (simp add: seg_step_def)





section \<open>Repeated headers\<close>

lemma section_keys_nonempty: "k \<in> set section_keys \<Longrightarrow> k \<noteq> []"
  by (auto simp: section_keys_def)

lemma header_of_key: "header_of h = Some k \<Longrightarrow> k \<in> set section_keys"
  using find_section_in [of section_headers "strip h" k]
  by (auto simp: header_of_def section_headers_keys split: if_splits)

lemma seg_step_header:
  "header_of h = Some k \<Longrightarrow>
     seg_step st h = \<lparr>sections = save_section st, current_section = Some k,
                      current_content = after_header k (strip h)\<rparr>"
  by (auto simp: header_of_def seg_step_def Let_def split: if_splits)

lemma seg_step_plain:
  "plain_line raw \<Longrightarrow> current_section st = Some k \<Longrightarrow> k \<noteq> [] \<Longrightarrow>
     seg_step st raw = st\<lparr>current_content := current_content st @ body_lines [raw]\<rparr>"
  by (auto simp: plain_line_def seg_step_def Let_def body_lines_def)

lemma foldl_plain:
  "list_all plain_line body \<Longrightarrow> current_section st = Some k \<Longrightarrow> k \<noteq> [] \<Longrightarrow>
     foldl seg_step st body = st\<lparr>current_content := current_content st @ body_lines body\<rparr>"
proof (induction body arbitrary: st)
  case Nil
  then show ?case by (simp add: body_lines_def)
next
  case (Cons raw body)
  have s: "seg_step st raw = st\<lparr>current_content := current_content st @ body_lines [raw]\<rparr>"
    using Cons.prems by (simp add: seg_step_plain)
  have "foldl seg_step (seg_step st raw) body =
        (seg_step st raw)\<lparr>current_content := current_content (seg_step st raw) @ body_lines body\<rparr>"
    using Cons.prems by (intro Cons.IH) (simp_all add: s)
  then show ?case by (simp add: s body_lines_def)
qed

lemma foldl_header_body:
  assumes "header_of h = Some k" and "list_all plain_line body"
  shows "foldl seg_step st (h # body) =
     \<lparr>sections = save_section st, current_section = Some k,
      current_content = after_header k (strip h) @ body_lines body\<rparr>"
proof -
  have k: "k \<noteq> []" using assms(1) header_of_key section_keys_nonempty by blast
  show ?thesis
    using foldl_plain [OF assms(2), of "seg_step st h" k] k
    by (simp add: seg_step_header [OF assms(1)])
qed

text \<open>
  Claim C9. A section is saved at the next header line and at the end of the lines, by
  \<open>save_section\<close>. When the content gathered since the header of section \<open>k\<close> is not
  empty, the body stored for \<open>k\<close> becomes that content alone, whatever was stored for
  \<open>k\<close> before; when it is empty, the dictionary stays as it was. The content gathered
  after a header line starts afresh: the text after the header and the lines that follow.
  So for every list of lines before it, a later header of \<open>k\<close> with content makes that
  content the body of \<open>k\<close>, and a later header of \<open>k\<close> without content gives the same
  dictionary as the lines before it.
\<close>

theorem repeated_header_replaces_body:
  "(current_section st = Some k \<and> k \<noteq> [] \<and> current_content st \<noteq> [] \<longrightarrow>
      map_of (save_section st) k = Some (strip (join [nl] (current_content st))))
   \<and> (current_content st = [] \<longrightarrow> save_section st = sections st)
   \<and> (header_of h = Some k \<and> list_all plain_line body \<longrightarrow>
        sections (foldl seg_step st (h # body)) = save_section st \<and>
        current_section (foldl seg_step st (h # body)) = Some k \<and>
        current_content (foldl seg_step st (h # body)) =
          after_header k (strip h) @ body_lines body)
   \<and> segment_lines lines = save_section (state_after lines)
   \<and> (header_of h = Some k \<and> list_all plain_line body \<and>
        after_header k (strip h) @ body_lines body \<noteq> [] \<longrightarrow>
        map_of (segment_lines (pre @ h # body)) k =
          Some (strip (join [nl] (after_header k (strip h) @ body_lines body))))
   \<and> (header_of h = Some k \<and> list_all plain_line body \<and>
        after_header k (strip h) @ body_lines body = [] \<longrightarrow>
        segment_lines (pre @ h # body) = segment_lines pre)"
proof -
  have a: "current_section st = Some k \<and> k \<noteq> [] \<and> current_content st \<noteq> [] \<longrightarrow>
      map_of (save_section st) k = Some (strip (join [nl] (current_content st)))"
    by (simp add: save_section_def update_conv')
  have b: "current_content st = [] \<longrightarrow> save_section st = sections st"
    by (simp add: save_section_def split: option.splits)
  have c: "header_of h = Some k \<and> list_all plain_line body \<longrightarrow>
        sections (foldl seg_step st (h # body)) = save_section st \<and>
        current_section (foldl seg_step st (h # body)) = Some k \<and>
        current_content (foldl seg_step st (h # body)) =
          after_header k (strip h) @ body_lines body"
    using foldl_header_body [of h k body st] by auto
  have d: "segment_lines lines = save_section (state_after lines)"
    by (simp add: segment_lines_def state_after_def)
  have e: "header_of h = Some k \<and> list_all plain_line body \<and>
        after_header k (strip h) @ body_lines body \<noteq> [] \<longrightarrow>
        map_of (segment_lines (pre @ h # body)) k =
          Some (strip (join [nl] (after_header k (strip h) @ body_lines body)))"
  proof
    assume p: "header_of h = Some k \<and> list_all plain_line body \<and>
        after_header k (strip h) @ body_lines body \<noteq> []"
    have k: "k \<noteq> []" using p header_of_key section_keys_nonempty by blast
    have "foldl seg_step seg_init (pre @ h # body) =
        \<lparr>sections = save_section (foldl seg_step seg_init pre), current_section = Some k,
         current_content = after_header k (strip h) @ body_lines body\<rparr>"
      using p foldl_header_body [of h k body "foldl seg_step seg_init pre"] by simp
    then show "map_of (segment_lines (pre @ h # body)) k =
          Some (strip (join [nl] (after_header k (strip h) @ body_lines body)))"
      using p k by (simp add: segment_lines_def save_section_def update_conv' del: foldl_append foldl_Cons)
  qed
  have f: "header_of h = Some k \<and> list_all plain_line body \<and>
        after_header k (strip h) @ body_lines body = [] \<longrightarrow>
        segment_lines (pre @ h # body) = segment_lines pre"
  proof
    assume p: "header_of h = Some k \<and> list_all plain_line body \<and>
        after_header k (strip h) @ body_lines body = []"
    have "foldl seg_step seg_init (pre @ h # body) =
        \<lparr>sections = save_section (foldl seg_step seg_init pre), current_section = Some k,
         current_content = after_header k (strip h) @ body_lines body\<rparr>"
      using p foldl_header_body [of h k body "foldl seg_step seg_init pre"] by simp
    then show "segment_lines (pre @ h # body) = segment_lines pre"
      using p by (simp add: segment_lines_def save_section_def del: foldl_append foldl_Cons)
  qed
  from a b c d e f show ?thesis by blast
qed


theorem repeated_header_replaces_body_witness:
  "current_section st_example = Some ''scope'' \<and> ''scope'' \<noteq> [] \<and> current_content st_example \<noteq> []
   \<and> map_of (sections st_example) ''scope'' = Some ''old body''
   \<and> map_of (save_section st_example) ''scope'' = Some ''new body''
   \<and> current_content (st_example\<lparr>current_content := []\<rparr>) = []
   \<and> save_section (st_example\<lparr>current_content := []\<rparr>) = sections st_example
   \<and> header_of ''SCOPE'' = Some ''scope'' \<and> list_all plain_line [''new body'']
   \<and> after_header ''scope'' (strip ''SCOPE'') @ body_lines [''new body''] = [''new body'']
   \<and> map_of (segment_lines pre_example) ''scope'' = Some ''old body''
   \<and> map_of (segment_lines (pre_example @ ''SCOPE'' # [''new body''])) ''scope'' = Some ''new body''
   \<and> list_all plain_line ['' '']
   \<and> after_header ''scope'' (strip ''SCOPE'') @ body_lines ['' ''] = []
   \<and> segment_lines (pre_example @ ''SCOPE'' # ['' '']) = segment_lines pre_example"
proof -
  have h1: "current_section st_example = Some ''scope'' \<and> ''scope'' \<noteq> [] \<and>
            current_content st_example \<noteq> []"
    by (simp add: st_example_def)
  have h2: "current_content (st_example\<lparr>current_content := []\<rparr>) = []" by simp
  have h3: "header_of ''SCOPE'' = Some ''scope''" by code_simp
  have h4: "list_all plain_line [''new body'']" by code_simp
  have h5: "after_header ''scope'' (strip ''SCOPE'') @ body_lines [''new body''] = [''new body'']"
    by code_simp
  have h6: "list_all plain_line ['' '']" by code_simp
  have h7: "after_header ''scope'' (strip ''SCOPE'') @ body_lines ['' ''] = []" by code_simp
  have h8: "map_of (sections st_example) ''scope'' = Some ''old body''" by code_simp
  have h9: "map_of (segment_lines pre_example) ''scope'' = Some ''old body''" by code_simp
  have j: "strip (join [nl] [''new body'']) = ''new body''" by code_simp
  have cc: "strip (join [nl] (current_content st_example)) = ''new body''" by code_simp
  note t1 = repeated_header_replaces_body [where st = st_example and k = "''scope''"
      and h = "''SCOPE''" and body = "[''new body'']" and pre = pre_example and lines = "[]"]
  note t2 = repeated_header_replaces_body [where st = "st_example\<lparr>current_content := []\<rparr>"
      and k = "''scope''" and h = "''SCOPE''" and body = "['' '']" and pre = pre_example
      and lines = "[]"]
  have a: "map_of (save_section st_example) ''scope'' = Some ''new body''"
    using t1 [THEN conjunct1, rule_format, OF h1] by (simp only: cc)
  have b: "save_section (st_example\<lparr>current_content := []\<rparr>) = sections st_example"
    using t2 [THEN conjunct2, THEN conjunct1, rule_format, OF h2] by simp
  have n: "after_header ''scope'' (strip ''SCOPE'') @ body_lines [''new body''] \<noteq> []"
    by (simp add: h5)
  have e: "map_of (segment_lines (pre_example @ ''SCOPE'' # [''new body''])) ''scope'' = Some ''new body''"
    using t1 [THEN conjunct2, THEN conjunct2, THEN conjunct2, THEN conjunct2, THEN conjunct1,
              rule_format, OF conjI [OF h3 conjI [OF h4 n]]]
    by (simp only: h5 j)
  have f: "segment_lines (pre_example @ ''SCOPE'' # ['' '']) = segment_lines pre_example"
    using t2 [THEN conjunct2, THEN conjunct2, THEN conjunct2, THEN conjunct2, THEN conjunct2,
              rule_format, OF conjI [OF h3 conjI [OF h6 h7]]] .
  note h1a = h1 [THEN conjunct1] and h1c = h1 [THEN conjunct2, THEN conjunct2]
  show ?thesis by (intro conjI; (fact | simp))
qed

section \<open>A header without body\<close>

lemma save_section_other:
  "map_of (sections st) k = Some [] \<Longrightarrow>
   current_section st = Some k \<longrightarrow> current_content st = [] \<Longrightarrow>
   map_of (save_section st) k = Some []"
  by (auto simp: save_section_def update_conv' split: option.splits)

lemma bodiless_step:
  assumes "bodiless_inv k opened st" and "bodiless k opened (raw # rest)"
  shows "\<exists>opened'. bodiless_inv k opened' (seg_step st raw) \<and> bodiless k opened' rest"
proof (cases "strip raw = []")
  case True
  then show ?thesis using assms by (auto simp: seg_step_blank)
next
  case False
  show ?thesis
  proof (cases "header_of raw")
    case None
    then have p: "find_section section_headers (strip raw) = None"
      using False by (simp add: header_of_def)
    have n: "\<not> opened" and r: "bodiless k False rest"
      using assms(2) False None by simp_all
    have "bodiless_inv k False (seg_step st raw)"
      using assms(1) n p False
      by (auto simp: bodiless_inv_def seg_step_def Let_def split: option.splits)
    then show ?thesis using r by blast
  next
    case (Some name)
    have s: "seg_step st raw = \<lparr>sections = save_section st, current_section = Some name,
                      current_content = after_header name (strip raw)\<rparr>"
      by (rule seg_step_header [OF Some])
    have m: "map_of (save_section st) k = Some []"
      using assms(1) by (intro save_section_other) (auto simp: bodiless_inv_def)
    have a: "name = k \<longrightarrow> after_header k (strip raw) = []" and r: "bodiless k (name = k) rest"
      using assms(2) False Some by simp_all
    have "bodiless_inv k (name = k) (seg_step st raw)"
      using m a by (auto simp: bodiless_inv_def s)
    then show ?thesis using r by blast
  qed
qed

lemma bodiless_foldl:
  "bodiless_inv k opened st \<Longrightarrow> bodiless k opened lines \<Longrightarrow>
     \<exists>opened'. bodiless_inv k opened' (foldl seg_step st lines)"
proof (induction lines arbitrary: st opened)
  case Nil
  then show ?case by auto
next
  case (Cons raw lines)
  from bodiless_step [OF Cons.prems] obtain opened'
    where "bodiless_inv k opened' (seg_step st raw)" and "bodiless k opened' lines" by blast
  then show ?case using Cons.IH by simp
qed

lemma bodiless_segment:
  assumes "bodiless k False lines" and "k \<in> set section_keys"
  shows "map_of (segment_lines lines) k = Some []"
proof -
  have "map_of empty_sections k = Some []"
    using assms(2) by (auto simp: section_keys_def empty_sections_def)
  then have "bodiless_inv k False seg_init"
    by (simp add: bodiless_inv_def seg_init_def)
  from bodiless_foldl [OF this assms(1)] obtain opened'
    where "bodiless_inv k opened' (foldl seg_step seg_init lines)" by blast
  then show ?thesis
    unfolding segment_lines_def
    by (intro save_section_other) (auto simp: bodiless_inv_def)
qed

lemma missing_issue_listed:
  "k \<in> set CRITICAL_SECTIONS \<Longrightarrow> map_of secs k = Some [] \<Longrightarrow>
     missing_issue k \<in> set (check_missing_sections secs)"
  by (simp add: check_missing_sections_def missing_loop_filter not_get_def)

lemma critical_sections_keys: "CRITICAL_SECTIONS = section_keys"
  by (simp add: CRITICAL_SECTIONS_def section_keys_def)

text \<open>
  Claim C3, as amended. For every text in which no header line of section \<open>k\<close> has a
  body (no text after the header on its line, no body line before the next header line or
  the end), and in which some section gets a body, so that the fallback does not run,
  \<open>extract_sections\<close> maps \<open>k\<close> to the empty string and \<open>check_missing_sections\<close>
  emits the Critical \<open>missing_section\<close> issue of \<open>k\<close>.
\<close>

theorem bodiless_section_reported_missing:
  "bodiless k False (split_nl text) \<and> k \<in> set section_keys \<and>
   any_value (segment_lines (split_nl text))
   \<longrightarrow> map_of (extract_sections text) k = Some []
       \<and> missing_issue k \<in> set (check_missing_sections (extract_sections text))
       \<and> i_type (missing_issue k) = Some ''missing_section''
       \<and> i_section (missing_issue k) = Some k
       \<and> i_severity (missing_issue k) = Some ''Critical''"
proof
  assume p: "bodiless k False (split_nl text) \<and> k \<in> set section_keys \<and>
   any_value (segment_lines (split_nl text))"
  then have e: "extract_sections text = segment_lines (split_nl text)"
    by (simp add: extract_sections_def)
  have m: "map_of (extract_sections text) k = Some []"
    using p by (simp add: e bodiless_segment)
  have "missing_issue k \<in> set (check_missing_sections (extract_sections text))"
    using p m by (intro missing_issue_listed) (simp_all add: critical_sections_keys)
  then show "map_of (extract_sections text) k = Some []
       \<and> missing_issue k \<in> set (check_missing_sections (extract_sections text))
       \<and> i_type (missing_issue k) = Some ''missing_section''
       \<and> i_section (missing_issue k) = Some k
       \<and> i_severity (missing_issue k) = Some ''Critical''"
    using m by (simp add: missing_issue_def no_issue_def)
qed

theorem bodiless_section_reported_missing_witness:
  "bodiless ''scope'' False (split_nl c3_text) \<and> ''scope'' \<in> set section_keys \<and>
   any_value (segment_lines (split_nl c3_text))
   \<and> header_of ''Scope'' = Some ''scope''
   \<and> map_of (extract_sections c3_text) ''scope'' = Some []
   \<and> map_of (extract_sections c3_text) ''timeline'' = Some ''two weeks''
   \<and> missing_issue ''scope'' \<in> set (check_missing_sections (extract_sections c3_text))"
proof -
  have s: "split_nl c3_text = [''Scope'', ''Timeline'', ''two weeks'']" by code_simp
  have ha: "bodiless ''scope'' False (split_nl c3_text)" unfolding s by code_simp
  have hb: "''scope'' \<in> set section_keys" by (simp add: section_keys_def)
  have sl: "segment_lines (split_nl c3_text) =
      AList.update ''timeline'' ''two weeks'' empty_sections" unfolding s by code_simp
  have hc: "any_value (segment_lines (split_nl c3_text))"
    unfolding sl by (simp add: any_value_def empty_sections_def)
  have e: "extract_sections c3_text = AList.update ''timeline'' ''two weeks'' empty_sections"
    using hc by (simp add: extract_sections_def sl)
  have h2: "header_of ''Scope'' = Some ''scope''" by code_simp
  have h3: "map_of (extract_sections c3_text) ''timeline'' = Some ''two weeks''"
    unfolding e by (simp add: empty_sections_def)
  note t = bodiless_section_reported_missing [of "''scope''" c3_text, THEN mp,
      OF conjI [OF ha conjI [OF hb hc]]]
  note t1 = t [THEN conjunct1] and t2 = t [THEN conjunct2, THEN conjunct1]
  show ?thesis by (intro conjI; fact)
qed

text \<open>
  Claim C3 as stated fails. In \<open>SCOPE, TIMELINE\<close> the line \<open>SCOPE\<close> is a header
  with no body before the next header, but no section gets a body, the fallback runs and
  stores the whole text under \<open>scope\<close>: no issue for \<open>scope\<close>. In \<open>SCOPE, all
  works, SCOPE, TIMELINE, two weeks\<close> the second \<open>SCOPE\<close> has no body, and
  \<open>scope\<close> keeps the body of the first.
\<close>

theorem header_without_body_counterexample:
  "split_nl c3_counter_text = [''SCOPE'', ''TIMELINE'']
   \<and> header_of ''SCOPE'' = Some ''scope''
   \<and> after_header ''scope'' (strip ''SCOPE'') = []
   \<and> header_of ''TIMELINE'' = Some ''timeline''
   \<and> map_of (extract_sections c3_counter_text) ''scope'' = Some ''SCOPE\<newline>TIMELINE''
   \<and> map_of (extract_sections c3_counter_text) ''scope'' \<noteq> Some []
   \<and> missing_issue ''scope'' \<notin> set (check_missing_sections (extract_sections c3_counter_text))
   \<and> split_nl c3_repeated_text = [''SCOPE'', ''all works'', ''SCOPE'', ''TIMELINE'', ''two weeks'']
   \<and> plain_line ''all works'' \<and> plain_line ''two weeks''
   \<and> map_of (extract_sections c3_repeated_text) ''scope'' = Some ''all works''
   \<and> missing_issue ''scope'' \<notin> set (check_missing_sections (extract_sections c3_repeated_text))"
proof -
  have a: "split_nl c3_counter_text = [''SCOPE'', ''TIMELINE'']" by code_simp
  have b: "header_of ''SCOPE'' = Some ''scope''" by code_simp
  have c: "after_header ''scope'' (strip ''SCOPE'') = []" by code_simp
  have d: "header_of ''TIMELINE'' = Some ''timeline''" by code_simp
  have e1: "extract_sections c3_counter_text =
      AList.update ''scope'' ''SCOPE\<newline>TIMELINE'' empty_sections" by code_simp
  have f: "map_of (extract_sections c3_counter_text) ''scope'' = Some ''SCOPE\<newline>TIMELINE''"
    unfolding e1 by (simp add: empty_sections_def)
  have g: "map_of (extract_sections c3_counter_text) ''scope'' \<noteq> Some []"
    unfolding f by simp
  have h: "missing_issue ''scope'' \<notin> set (check_missing_sections (extract_sections c3_counter_text))"
    unfolding e1 by (simp add: missing_issue_in not_get_def empty_sections_def)
  have i: "split_nl c3_repeated_text = [''SCOPE'', ''all works'', ''SCOPE'', ''TIMELINE'', ''two weeks'']"
    by code_simp
  have j: "plain_line ''all works''" by code_simp
  have k: "plain_line ''two weeks''" by code_simp
  have e2: "extract_sections c3_repeated_text =
      AList.update ''timeline'' ''two weeks'' (AList.update ''scope'' ''all works'' empty_sections)"
    by code_simp
  have l: "map_of (extract_sections c3_repeated_text) ''scope'' = Some ''all works''"
    unfolding e2 by (simp add: empty_sections_def)
  have m: "missing_issue ''scope'' \<notin> set (check_missing_sections (extract_sections c3_repeated_text))"
    unfolding e2 by (simp add: missing_issue_in not_get_def empty_sections_def)
  show ?thesis by (intro conjI; fact)
qed

section \<open>The paragraphs of the fallback\<close>









section \<open>Cleaning twice\<close>




section \<open>Contradicting durations\<close>















lemma atom_ok_ci: "atom_ok True (Lit p) c = ci_eq c p"
  by (simp add: ci_eq_def)










































end
